theory Spec2Isabelle
  imports Complex_Main "HOL-Library.Word" "HOL-Library.Sublist"
begin

unbundle bit_operations_syntax

section \<open>Sample sink: \<open>f32_to_s8\<close> (src/src/aprs.cpp, lines 15-24)\<close>

text \<open>
  A \<open>float\<close> is modelled by the real number it denotes and a \<open>std::complex<float>\<close> by a
  \<open>complex\<close>; the product with \<open>SCHAR_MAX\<close> is taken exactly (the binary32 rounding of the
  product is not modelled). An \<open>int8_t\<close> is an \<open>8 word\<close>, read with \<open>sint\<close>.
\<close>

definition SCHAR_MAX :: int where
  "SCHAR_MAX = 127"

text \<open>The conversion of a floating value to an integer type drops the fractional part.\<close>

definition trunc_zero :: "real \<Rightarrow> int" where
  "trunc_zero x = (if 0 \<le> x then \<lfloor>x\<rfloor> else \<lceil>x\<rceil>)"

text \<open>
  The implicit conversion \<open>float \<rightarrow> int8_t\<close> of the two assignments in the loop. The source
  has no range check and no saturation. The language leaves the result undefined when the
  truncated value is not an \<open>int8_t\<close>; the compilers the program is built with convert through
  a 32-bit integer and keep its low byte, which is what the model does.
\<close>

definition to_int8 :: "real \<Rightarrow> 8 word" where
  "to_int8 x = word_of_int (trunc_zero x)"

text \<open>The cast \<open>(int)v.size()\<close>: the low 32 bits of the size, read as a signed number.\<close>

definition int_cast :: "nat \<Rightarrow> int" where
  "int_cast n = sint (word_of_nat n :: 32 word)"

text \<open>
  The \<open>for\<close> loop of \<open>f32_to_s8\<close>: \<open>n\<close> is \<open>(int)input.size()\<close>, \<open>i\<close> the loop index and
  \<open>result\<close> the output vector. The byte indices \<open>i * 2\<close> and \<open>i * 2 + 1\<close> are computed
  without wrap-around, which is what the source does below \<open>2 ^ 30\<close> samples.
\<close>

function f32_to_s8_loop :: "complex list \<Rightarrow> int \<Rightarrow> nat \<Rightarrow> 8 word list \<Rightarrow> 8 word list" where
  "f32_to_s8_loop input n i result =
     (if int i < n then
        f32_to_s8_loop input n (Suc i)
          (result[i * 2 := to_int8 (Re (input ! i) * real_of_int SCHAR_MAX),
                  i * 2 + 1 := to_int8 (Im (input ! i) * real_of_int SCHAR_MAX)])
      else result)"
  by pat_completeness auto
termination
  by (relation "measure (\<lambda>(input, n, i, result). nat (n - int i))") auto

definition f32_to_s8 :: "complex list \<Rightarrow> 8 word list" where
  "f32_to_s8 input =
     f32_to_s8_loop input (int_cast (length input)) 0 (replicate (length input * 2) 0)"




section \<open>The DSP and framing library used by the orchestrator\<close>

text \<open>
  \<open>aprs.cpp\<close> and the command-line driver call functions of \<open>ax25.cpp\<close> and \<open>dsp.cpp\<close>,
  which are not among the sources. They are parameters of the model, collected in a record:
  the frame builder \<open>ax25frame\<close> (it returns the framed bit stream that \<open>nrzi\<close> takes), the
  line coder \<open>nrzi\<close>, the tone synthesiser \<open>afsk\<close>, the filter designer \<open>lowpass\<close>, the
  constructor and the streaming method of \<open>FIRInterpolator\<close> (the interpolator's internal
  state has type \<open>'s\<close>; \<open>interpolate\<close> reads the ring buffer and returns the number of
  samples it processed, its output buffer and its new state), the frequency modulator
  \<open>fmmod\<close> (it returns the samples it pushes into the ring buffer and the new phase), the
  constant \<open>BUFSIZE\<close>, and \<open>f32_bits\<close>, the 32-bit object representation of a \<open>float\<close>.
\<close>

record 's dsp =
  ax25frame :: "string \<Rightarrow> string \<Rightarrow> string \<Rightarrow> string \<Rightarrow> bool \<Rightarrow> bool list"
  nrzi :: "bool list \<Rightarrow> bool list"
  afsk :: "bool list \<Rightarrow> real list"
  lowpass :: "real \<Rightarrow> real \<Rightarrow> real \<Rightarrow> real \<Rightarrow> real list"
  FIRInterpolator :: "real \<Rightarrow> real list \<Rightarrow> 's"
  interpolate :: "'s \<Rightarrow> complex list \<Rightarrow> nat \<times> complex list \<times> 's"
  fmmod :: "real list \<Rightarrow> real \<Rightarrow> real \<Rightarrow> complex list \<times> real"
  BUFSIZE :: nat
  f32_bits :: "real \<Rightarrow> 32 word"

text \<open>
  Modelled from the spec: the constant \<open>AUDIO_SAMPLE_RATE\<close> is declared in a header that is
  not among the sources. Section 4.5 gives the audio rate as 48 kHz, and the comment above
  \<open>modulate\<close> (aprs.cpp, line 27) computes the output rate as \<open>48000 * 50\<close>.
\<close>

definition AUDIO_SAMPLE_RATE :: nat where
  "AUDIO_SAMPLE_RATE = 48000"

datatype OutputFormat = IQ_S8 | IQ_F32 | PCM_F32

subsection \<open>Writing floats to a stream\<close>

text \<open>
  \<open>fwrite\<close> of \<open>float\<close> and \<open>std::complex<float>\<close> arrays on the little-endian targets of the
  program: four bytes per \<open>float\<close>, least significant first; a complex sample is its real
  part followed by its imaginary part.
\<close>

definition le_bytes32 :: "32 word \<Rightarrow> 8 word list" where
  "le_bytes32 w = [ucast w, ucast (drop_bit 8 w), ucast (drop_bit 16 w), ucast (drop_bit 24 w)]"

definition fwrite_f32 :: "'s dsp \<Rightarrow> real list \<Rightarrow> 8 word list" where
  "fwrite_f32 D xs = concat (map (\<lambda>x. le_bytes32 (f32_bits D x)) xs)"

definition fwrite_c32 :: "'s dsp \<Rightarrow> complex list \<Rightarrow> 8 word list" where
  "fwrite_c32 D cs =
     concat (map (\<lambda>c. le_bytes32 (f32_bits D (Re c)) @ le_bytes32 (f32_bits D (Im c))) cs)"

section \<open>FM modulation and interpolation: \<open>modulate\<close> (src/src/aprs.cpp, lines 28-66)\<close>

text \<open>
  Two logs are kept next to the program state, to state properties of the run: every call
  of \<open>fmmod\<close> (its input slice, sensitivity and starting phase, the samples it pushed and the
  phase it returned) and every call of \<open>interpolate\<close> (the ring buffer it was given, the
  count it returned and its output buffer). The program does not read them.
\<close>

record fm_call =
  fm_in :: "real list"
  fm_sens :: real
  fm_phase0 :: real
  fm_out :: "complex list"
  fm_phase1 :: real

record interp_call =
  ip_in :: "complex list"
  ip_processed :: nat
  ip_out :: "complex list"

text \<open>
  The variables of the loop: \<open>offset\<close>, \<open>last_phase\<close>, the ring buffer \<open>mod_buf\<close>, the
  interpolator \<open>interp\<close>, and \<open>fout\<close>, the bytes written to the stream so far.
\<close>

record 's mod_state =
  offset :: nat
  last_phase :: real
  mod_buf :: "complex list"
  interp :: 's
  fout :: "8 word list"
  fm_calls :: "fm_call list"
  interp_calls :: "interp_call list"

text \<open>
  One pass through the body of the \<open>while\<close> loop (lines 45-64). The result says whether the
  loop goes on (\<open>True\<close>) or was left by \<open>break\<close> (\<open>False\<close>, when \<open>interpolate\<close> returned 0:
  nothing is removed from the ring buffer, nothing is written and \<open>offset\<close> stays).
\<close>

definition modulate_body ::
  "'s dsp \<Rightarrow> OutputFormat \<Rightarrow> real list \<Rightarrow> real \<Rightarrow> 's mod_state \<Rightarrow> bool \<times> 's mod_state" where
  "modulate_body D iq_sf waveform sensitivity s =
     (let input_size = nat (min (int (BUFSIZE D)) (int_cast (length waveform) - int (offset s)));
          fm = fmmod D (take input_size (drop (offset s) waveform)) sensitivity (last_phase s);
          buf = mod_buf s @ fst fm;
          ip = interpolate D (interp s) buf;
          processed = fst ip;
          interp_buf = fst (snd ip);
          s1 = s\<lparr>last_phase := snd fm, mod_buf := buf, interp := snd (snd ip),
                 fm_calls := fm_calls s @
                   [\<lparr>fm_in = take input_size (drop (offset s) waveform), fm_sens = sensitivity,
                     fm_phase0 = last_phase s, fm_out = fst fm, fm_phase1 = snd fm\<rparr>],
                 interp_calls := interp_calls s @
                   [\<lparr>ip_in = buf, ip_processed = processed, ip_out = interp_buf\<rparr>]\<rparr>
      in if processed = 0 then (False, s1)
         else (True, s1\<lparr>mod_buf := drop processed buf,
                 fout := fout s @
                   (if iq_sf = IQ_S8 then f32_to_s8 interp_buf else fwrite_c32 D interp_buf),
                 offset := offset s + input_size\<rparr>))"

text \<open>
  The \<open>while\<close> loop. With \<open>BUFSIZE = 0\<close> the offset would never advance, so the loop is a
  partial function: \<open>None\<close> stands for a run that does not return.
\<close>

partial_function (option) modulate_loop ::
  "'s dsp \<Rightarrow> OutputFormat \<Rightarrow> real list \<Rightarrow> real \<Rightarrow> 's mod_state \<Rightarrow> 's mod_state option" where
  "modulate_loop D iq_sf waveform sensitivity s =
     (if int (offset s) < int_cast (length waveform) then
        (let r = modulate_body D iq_sf waveform sensitivity s
         in if fst r then modulate_loop D iq_sf waveform sensitivity (snd r) else Some (snd r))
      else Some s)"

text \<open>
  \<open>modulate\<close>: the constants of lines 30-37, the empty ring buffer, the interpolator built
  from the taps, \<open>last_phase = 0\<close> and \<open>offset = 0\<close>; then the loop. The result is the final
  state; its \<open>fout\<close> is what the call wrote to the stream.
\<close>

definition sensitivity_of :: "real \<Rightarrow> real" where
  "sensitivity_of max_deviation = 2 * pi * max_deviation / real AUDIO_SAMPLE_RATE"

definition modulate_init :: "'s dsp \<Rightarrow> 's mod_state" where
  "modulate_init D =
     (let factor = 50;
          fractional_bw = 0.4;
          halfband = 0.5;
          trans_width = halfband - fractional_bw;
          mid_transition_band = halfband - trans_width / 2;
          taps = lowpass D factor factor mid_transition_band trans_width
      in \<lparr>offset = 0, last_phase = 0, mod_buf = [], interp = FIRInterpolator D factor taps,
          fout = [], fm_calls = [], interp_calls = []\<rparr>)"

definition modulate :: "'s dsp \<Rightarrow> real list \<Rightarrow> OutputFormat \<Rightarrow> 's mod_state option" where
  "modulate D waveform iq_sf =
     (let max_deviation = 5000;
          sensitivity = sensitivity_of max_deviation
      in modulate_loop D iq_sf waveform sensitivity (modulate_init D))"

subsection \<open>The parts of one pass\<close>

text \<open>
  Names for the values that one pass through the loop body computes from the state \<open>s\<close>:
  \<open>input_size\<close>, the result of \<open>fmmod\<close>, the ring buffer after the push, and the result of
  \<open>interpolate\<close>.
\<close>

definition pass_size :: "'s dsp \<Rightarrow> real list \<Rightarrow> 's mod_state \<Rightarrow> nat" where
  "pass_size D w s = nat (min (int (BUFSIZE D)) (int_cast (length w) - int (offset s)))"

definition pass_fm :: "'s dsp \<Rightarrow> real list \<Rightarrow> real \<Rightarrow> 's mod_state \<Rightarrow> complex list \<times> real" where
  "pass_fm D w k s = fmmod D (take (pass_size D w s) (drop (offset s) w)) k (last_phase s)"

definition pass_buf :: "'s dsp \<Rightarrow> real list \<Rightarrow> real \<Rightarrow> 's mod_state \<Rightarrow> complex list" where
  "pass_buf D w k s = mod_buf s @ fst (pass_fm D w k s)"

definition pass_ip ::
  "'s dsp \<Rightarrow> real list \<Rightarrow> real \<Rightarrow> 's mod_state \<Rightarrow> nat \<times> complex list \<times> 's" where
  "pass_ip D w k s = interpolate D (interp s) (pass_buf D w k s)"

subsection \<open>Reading the logs of a run\<close>

text \<open>
  The calls of \<open>fmmod\<close> form a chain from phase \<open>p\<close>: the first call starts at \<open>p\<close> and every
  later call starts at the phase the call before it returned. \<open>chain_end\<close> is the phase the
  last call returned.
\<close>

fun phase_chain :: "real \<Rightarrow> fm_call list \<Rightarrow> bool" where
  "phase_chain p [] = True"
| "phase_chain p (c # cs) = (fm_phase0 c = p \<and> phase_chain (fm_phase1 c) cs)"

definition chain_end :: "real \<Rightarrow> fm_call list \<Rightarrow> real" where
  "chain_end p cs = (if cs = [] then p else fm_phase1 (last cs))"

text \<open>The bytes that lines 55-63 write for one output buffer of the interpolator.\<close>

definition sample_sink :: "'s dsp \<Rightarrow> OutputFormat \<Rightarrow> complex list \<Rightarrow> 8 word list" where
  "sample_sink D iq_sf interp_buf =
     (if iq_sf = IQ_S8 then f32_to_s8 interp_buf else fwrite_c32 D interp_buf)"

text \<open>The output buffers that were written: those of the calls that processed something.\<close>

definition written_calls :: "interp_call list \<Rightarrow> interp_call list" where
  "written_calls cs = filter (\<lambda>c. ip_processed c \<noteq> 0) cs"

text \<open>The samples of the ring buffer that the calls of \<open>interpolate\<close> consumed, in order.\<close>

definition consumed :: "interp_call list \<Rightarrow> complex list" where
  "consumed cs = concat (map (\<lambda>c. take (ip_processed c) (ip_in c)) cs)"

text \<open>
  Contracts of the absent library functions that some properties below assume: \<open>fmmod\<close>
  pushes one sample per audio sample; \<open>interpolate\<close> processes the whole ring buffer; it
  emits 50 samples per processed sample; \<open>afsk\<close> emits 40 samples per bit and \<open>nrzi\<close> one bit
  per bit.
\<close>

definition fm_one_per_sample :: "'s dsp \<Rightarrow> bool" where
  "fm_one_per_sample D = (\<forall>xs k p. length (fst (fmmod D xs k p)) = length xs)"

definition interp_consumes_all :: "'s dsp \<Rightarrow> bool" where
  "interp_consumes_all D = (\<forall>st buf. fst (interpolate D st buf) = length buf)"

definition interp_fifty_per_sample :: "'s dsp \<Rightarrow> bool" where
  "interp_fifty_per_sample D =
     (\<forall>st buf. length (fst (snd (interpolate D st buf))) = 50 * fst (interpolate D st buf))"


section \<open>The C entry point \<open>gen_iq_s8\<close> (src/src/aprs.cpp, lines 70-91)\<close>

text \<open>
  What the call finds in its surroundings: \<open>stack_bytes\<close>, the bytes that lie at the address
  of the local array \<open>path\<close> and after it when the function is entered (a local array is not
  initialised); whether \<open>malloc\<close> finds memory; and \<open>heap_bytes\<close>, the contents of a fresh
  allocation.
\<close>

record c_env =
  stack_bytes :: string
  malloc_succeeds :: bool
  heap_bytes :: "nat \<Rightarrow> 8 word"

text \<open>
  \<open>strncpy(dst, src, n)\<close> for a C string \<open>src\<close> (its characters, without the terminator):
  the first \<open>n\<close> bytes of \<open>dst\<close> become the string, filled up with zero bytes when it is
  shorter than \<open>n\<close>; the bytes from \<open>n\<close> on keep their old contents. No terminator is
  written when the string has \<open>n\<close> or more characters.
\<close>

definition strncpy :: "string \<Rightarrow> string \<Rightarrow> nat \<Rightarrow> string" where
  "strncpy dst src n = take n (src @ replicate n (CHR 0x00)) @ drop n dst"

text \<open>Reading memory as a C string: the characters before the first zero byte.\<close>

definition c_str :: "string \<Rightarrow> string" where
  "c_str bytes = takeWhile (\<lambda>c. c \<noteq> CHR 0x00) bytes"

text \<open>Lines 73-74: the digipeater path that the frame builder is handed.\<close>

definition gen_path :: "c_env \<Rightarrow> string \<Rightarrow> string" where
  "gen_path env user_path = c_str (strncpy (stack_bytes env) user_path 63)"





section \<open>The driver \<open>run_aprs\<close> (src/unnamed/part_000, lines 103-159)\<close>

record Config =
  debug :: bool
  callsign :: string
  dest :: string
  path :: string
  "output" :: string
  info :: string
  iq_sf :: OutputFormat
  frequency :: real
  sampleRate :: real
  amplifier :: int
  txvga_gain :: int

text \<open>
  \<open>fopen_ok\<close> says whether \<open>fopen(name, "wb")\<close> succeeds. The result is \<open>None\<close> when the call
  does not return, and otherwise the return value together with the bytes written to the
  output (the file, or \<open>stdout\<close> when no file is named). The log lines are left out.
\<close>

definition run_aprs ::
  "'s dsp \<Rightarrow> (string \<Rightarrow> bool) \<Rightarrow> Config \<Rightarrow> (int \<times> 8 word list) option" where
  "run_aprs D fopen_ok config =
     (let callsignUsed = (if callsign config \<noteq> [] then callsign config else ''KD9WPR'');
          infoUsed = (if info config \<noteq> [] then info config
                      else ''Hello from APRS default message'');
          frame = ax25frame D (c_str callsignUsed) (c_str (dest config)) (c_str (path config))
                    (c_str infoUsed) False;
          frame_nrzi = nrzi D frame;
          wave = afsk D frame_nrzi
      in if output config \<noteq> [] \<and> \<not> fopen_ok (output config) then Some (1, [])
         else if iq_sf config = PCM_F32 then Some (0, fwrite_f32 D wave)
         else (case modulate D wave (iq_sf config) of
                 None \<Rightarrow> None
               | Some t \<Rightarrow> Some (0, fout t)))"

section \<open>The framing and DSP stages, from the specification\<close>

subsection \<open>Frame check sequence\<close>

text \<open>
  Modelled from the spec: the FCS function of the frame builder (\<open>ax25.cpp\<close>) is not among
  the sources. Section 3 gives its parameters: polynomial \<open>0x1021\<close>, initial value \<open>0xFFFF\<close>,
  reflected input, reflected output, final XOR \<open>0xFFFF\<close>. \<open>crc_shift\<close> is one step of the
  shift register (most significant bit first), \<open>crc_byte\<close> feeds a byte with its bits
  reflected, that is least significant bit first, \<open>crc16_register\<close> is the register after the
  last byte, reflected, and \<open>crc16\<close> is its complement.
\<close>

definition crc_shift :: "16 word \<Rightarrow> bool \<Rightarrow> 16 word" where
  "crc_shift r b = (if bit r 15 \<noteq> b then push_bit 1 r XOR 0x1021 else push_bit 1 r)"

definition byte_bits :: "8 word \<Rightarrow> bool list" where
  "byte_bits b = map (bit b) [0..<8]"

definition crc_byte :: "16 word \<Rightarrow> 8 word \<Rightarrow> 16 word" where
  "crc_byte r b = foldl crc_shift r (byte_bits b)"

definition reflect16 :: "16 word \<Rightarrow> 16 word" where
  "reflect16 r = horner_sum of_bool 2 (rev (map (bit r) [0..<16]))"

definition crc16_register :: "8 word list \<Rightarrow> 16 word" where
  "crc16_register bytes = reflect16 (foldl crc_byte 0xFFFF bytes)"

definition crc16 :: "8 word list \<Rightarrow> 16 word" where
  "crc16 bytes = crc16_register bytes XOR 0xFFFF"



text \<open>
  Modelled from the spec: section 4.1, the two FCS bytes of a frame, the low byte before the
  high byte, appended to the bytes they are computed over.
\<close>

definition fcs_bytes :: "8 word list \<Rightarrow> 8 word list" where
  "fcs_bytes body = [ucast (crc16 body), ucast (drop_bit 8 (crc16 body))]"

definition append_fcs :: "8 word list \<Rightarrow> 8 word list" where
  "append_fcs body = body @ fcs_bytes body"

subsection \<open>Address field and frame bytes\<close>

text \<open>
  Modelled from the spec: section 3, the encoding of an address (six characters, padded with
  spaces, each shifted left by one bit; then the SSID byte with the SSID in bits 1-4, bits 5
  and 6 set and bit 0 set on the last address) and the frame bytes. The validation of
  section 4.1 is left out: the callers in the sources take the result of \<open>ax25frame\<close> as a
  frame and have no branch for a rejection.
\<close>

definition parse_ssid :: "string \<Rightarrow> nat" where
  "parse_ssid ds = foldl (\<lambda>n c. 10 * n + (of_char c - 48)) 0 ds"

definition parse_address :: "string \<Rightarrow> string \<times> nat" where
  "parse_address a =
     (takeWhile (\<lambda>c. c \<noteq> CHR ''-'') a, parse_ssid (drop 1 (dropWhile (\<lambda>c. c \<noteq> CHR ''-'') a)))"

definition encode_address :: "string \<times> nat \<Rightarrow> bool \<Rightarrow> 8 word list" where
  "encode_address a last_one =
     map (\<lambda>c. push_bit 1 (of_char c)) (take 6 (fst a @ replicate 6 (CHR '' ''))) @
     [0x60 OR push_bit 1 (word_of_nat (snd a) AND 0x0F) OR (if last_one then 1 else 0)]"

fun split_path :: "string \<Rightarrow> string \<Rightarrow> string list" where
  "split_path acc [] = (if acc = [] then [] else [acc])"
| "split_path acc (c # cs) =
     (if c = CHR '','' then acc # split_path [] cs else split_path (acc @ [c]) cs)"

fun encode_digis :: "string list \<Rightarrow> 8 word list" where
  "encode_digis [] = []"
| "encode_digis [d] = encode_address (parse_address d) True"
| "encode_digis (d # ds) = encode_address (parse_address d) False @ encode_digis ds"

definition frame_body :: "string \<Rightarrow> string \<Rightarrow> string \<Rightarrow> string \<Rightarrow> 8 word list" where
  "frame_body src dst digi_path text =
     (let digis = split_path [] digi_path
      in encode_address (parse_address dst) False @
         encode_address (parse_address src) (digis = []) @
         encode_digis digis @ [0x03, 0xF0] @ map of_char text)"

subsection \<open>Bit serialiser\<close>

text \<open>
  Modelled from the spec: section 4.2. The flag \<open>0x7E\<close> is emitted least significant bit
  first and is not stuffed; the frame bytes are emitted least significant bit first, and
  after every fifth consecutive 1 a 0 is inserted and the counter reset; a 0 resets the
  counter. One opening and one closing flag, as section 9 says of the reference.
\<close>

definition flag_bits :: "bool list" where
  "flag_bits = byte_bits 0x7E"

fun stuff :: "nat \<Rightarrow> bool list \<Rightarrow> bool list" where
  "stuff ones [] = []"
| "stuff ones (b # bs) =
     (if b then (if Suc ones = 5 then True # False # stuff 0 bs else True # stuff (Suc ones) bs)
      else False # stuff 0 bs)"

definition frame_bits :: "8 word list \<Rightarrow> bool list" where
  "frame_bits bytes = concat (map byte_bits bytes)"

definition serialize :: "8 word list \<Rightarrow> bool list" where
  "serialize bytes = flag_bits @ stuff 0 (frame_bits bytes) @ flag_bits"

text \<open>Modelled from the spec: property 3, the inverse of the stuffing.\<close>

fun unstuff :: "nat \<Rightarrow> bool list \<Rightarrow> bool list" where
  "unstuff ones [] = []"
| "unstuff ones (b # bs) =
     (if ones = 5 then unstuff 0 bs
      else if b then True # unstuff (Suc ones) bs else False # unstuff 0 bs)"

text \<open>A window of six consecutive 1 bits that starts at position \<open>i\<close>.\<close>

definition six_ones_at :: "bool list \<Rightarrow> nat \<Rightarrow> bool" where
  "six_ones_at xs i = (take 6 (drop i xs) = replicate 6 True)"

text \<open>A window of five consecutive 1 bits that starts at position \<open>i\<close>.\<close>

definition five_ones_at :: "bool list \<Rightarrow> nat \<Rightarrow> bool" where
  "five_ones_at xs i = (take 5 (drop i xs) = replicate 5 True)"

text \<open>
  The shape of a stuffed stream, read after a run of \<open>k\<close> ones: a 1 is only taken while the
  run is shorter than five, and the stream does not end on a run of five.
\<close>

fun stuffed_ok :: "nat \<Rightarrow> bool list \<Rightarrow> bool" where
  "stuffed_ok k [] = (k < 5)"
| "stuffed_ok k (b # bs) = (if b then k < 5 \<and> stuffed_ok (Suc k) bs else stuffed_ok 0 bs)"

text \<open>Modelled from the spec: the frame builder as the callers use it, bytes to framed bits.\<close>

definition ax25frame_spec :: "string \<Rightarrow> string \<Rightarrow> string \<Rightarrow> string \<Rightarrow> bool \<Rightarrow> bool list" where
  "ax25frame_spec src dst digi_path text dbg =
     serialize (append_fcs (frame_body src dst digi_path text))"

subsection \<open>NRZI, AFSK and FM\<close>

text \<open>
  Modelled from the spec: section 3, NRZI with initial level 1: a 0 toggles the level, a 1
  holds it, and the new level is emitted.
\<close>

fun nrzi_from :: "bool \<Rightarrow> bool list \<Rightarrow> bool list" where
  "nrzi_from level [] = []"
| "nrzi_from level (b # bs) = (let l = (if b then level else \<not> level) in l # nrzi_from l bs)"

definition nrzi_spec :: "bool list \<Rightarrow> bool list" where
  "nrzi_spec bits = nrzi_from True bits"

text \<open>
  Modelled from the spec: section 4.4, 40 samples per bit, 1200 Hz for a 1 and 2200 Hz for
  a 0, one phase accumulator for the whole frame, kept in \<open>[0, 2 pi)\<close>.
\<close>

definition wrap_phase :: "real \<Rightarrow> real" where
  "wrap_phase p = p - 2 * pi * real_of_int \<lfloor>p / (2 * pi)\<rfloor>"

fun tone :: "real \<Rightarrow> real \<Rightarrow> nat \<Rightarrow> real list \<times> real" where
  "tone f p 0 = ([], p)"
| "tone f p (Suc n) =
     (let q = wrap_phase (p + 2 * pi * f / 48000); r = tone f q n in (sin q # fst r, snd r))"

fun afsk_from :: "real \<Rightarrow> bool list \<Rightarrow> real list" where
  "afsk_from p [] = []"
| "afsk_from p (b # bs) =
     (let r = tone (if b then 1200 else 2200) p 40 in fst r @ afsk_from (snd r) bs)"

definition afsk_spec :: "bool list \<Rightarrow> real list" where
  "afsk_spec bits = afsk_from 0 bits"

text \<open>
  Modelled from the spec: section 4.5, \<open>psi[n] = psi[n-1] + k * x[n]\<close>, emitting
  \<open>(cos psi, sin psi)\<close>; the result is the emitted samples and the last phase.
\<close>

fun fmmod_spec :: "real list \<Rightarrow> real \<Rightarrow> real \<Rightarrow> complex list \<times> real" where
  "fmmod_spec [] k p = ([], p)"
| "fmmod_spec (x # xs) k p =
     (let q = p + k * x; r = fmmod_spec xs k q in (cis q # fst r, snd r))"

subsection \<open>A streaming interpolator\<close>

text \<open>
  Modelled from the spec: section 4.6 fixes the streaming contract of the interpolator (a
  call consumes \<open>k\<close> of the buffered samples, emits \<open>k * L\<close> samples and returns \<open>k\<close>; what it
  did not consume stays in the ring buffer) but not its taps. \<open>hold_interpolate h\<close> is the
  interpolator with \<open>L = 50\<close> and 50 taps equal to 1, which repeats each consumed sample 50
  times; it needs \<open>h\<close> samples beyond the ones it consumes, so it leaves the last \<open>h\<close> buffered
  samples in the ring buffer and consumes nothing while the buffer holds no more than \<open>h\<close>.
\<close>

definition hold_interpolate :: "nat \<Rightarrow> unit \<Rightarrow> complex list \<Rightarrow> nat \<times> complex list \<times> unit" where
  "hold_interpolate h st buf =
     (let k = length buf - h in (k, concat (map (replicate 50) (take k buf)), ()))"

text \<open>
  An instance of the library for running the orchestrator: the stages above, \<open>BUFSIZE = b\<close>,
  and for the object representation of a \<open>float\<close> its integer part as a 32-bit number (a
  stand-in: only the size of the representation enters the properties below).
\<close>

definition ref_dsp :: "nat \<Rightarrow> nat \<Rightarrow> unit dsp" where
  "ref_dsp b h =
     \<lparr>ax25frame = ax25frame_spec, nrzi = nrzi_spec, afsk = afsk_spec,
      lowpass = (\<lambda>gain fs fc tw. replicate 50 1), FIRInterpolator = (\<lambda>factor taps. ()),
      interpolate = hold_interpolate h, fmmod = fmmod_spec, BUFSIZE = b,
      f32_bits = (\<lambda>x. word_of_int \<lfloor>x\<rfloor>)\<rparr>"

subsection \<open>Example inputs\<close>

definition fopen_always :: "string \<Rightarrow> bool" where
  "fopen_always name = True"

definition env_with_stack :: "string \<Rightarrow> c_env" where
  "env_with_stack bytes = \<lparr>stack_bytes = bytes, malloc_succeeds = True, heap_bytes = (\<lambda>i. 0)\<rparr>"



text \<open>The built-in defaults of \<open>set_defaults\<close> (src/unnamed/part_002, lines 30-46).\<close>

definition default_config :: Config where
  "default_config =
     \<lparr>debug = False, callsign = ''KD9WPR'', dest = ''APRS'', path = ''WIDE1-1,WIDE2-1'',
      output = ''pkt8.s8'', info = ''Hello from default config!'', iq_sf = IQ_S8,
      frequency = 144390000, sampleRate = 2000000, amplifier = 1, txvga_gain = 40\<rparr>"

text \<open>A digipeater path of eight entries: 63 characters.\<close>

definition eight_digis :: string where
  "eight_digis = ''WIDE1-1,WIDE2-1,WIDE3-1,WIDE4-1,WIDE5-1,WIDE6-1,WIDE7-1,WIDE8-1''"

subsection \<open>Names for the values the entry points compute\<close>


definition aprs_frame :: "'s dsp \<Rightarrow> Config \<Rightarrow> bool list" where
  "aprs_frame D config =
     ax25frame D (c_str (if callsign config \<noteq> [] then callsign config else ''KD9WPR''))
       (c_str (dest config)) (c_str (path config))
       (c_str (if info config \<noteq> [] then info config else ''Hello from APRS default message''))
       False"

definition aprs_wave :: "'s dsp \<Rightarrow> Config \<Rightarrow> real list" where
  "aprs_wave D config = afsk D (nrzi D (aprs_frame D config))"

subsection \<open>Invariants of the loop of \<open>modulate\<close>\<close>

text \<open>
  \<open>phase_inv\<close>: the calls of \<open>fmmod\<close> so far form a chain from phase 0 that ends in
  \<open>last_phase\<close>, each with sensitivity \<open>k\<close> on at most \<open>BUFSIZE\<close> samples, and the log holds
  what \<open>fmmod\<close> returned. \<open>audio_inv\<close>: the slices handed to \<open>fmmod\<close> are the first \<open>offset\<close>
  samples of the waveform. \<open>stream_inv\<close>: the stream holds the sink's bytes of the written
  output buffers, and every sample pushed into the ring buffer was consumed by the
  interpolator or is still in the buffer. \<open>ip_log_inv\<close>: the log holds what \<open>interpolate\<close>
  returned. \<open>cover_inv\<close>: the ring buffer is empty between passes and the interpolator has
  processed \<open>offset\<close> samples, none of its calls returning 0.
\<close>

definition phase_inv :: "'s dsp \<Rightarrow> real \<Rightarrow> 's mod_state \<Rightarrow> bool" where
  "phase_inv D k s =
     (phase_chain 0 (fm_calls s) \<and> last_phase s = chain_end 0 (fm_calls s) \<and>
      (\<forall>c\<in>set (fm_calls s). fm_sens c = k \<and> length (fm_in c) \<le> BUFSIZE D \<and>
          fmmod D (fm_in c) (fm_sens c) (fm_phase0 c) = (fm_out c, fm_phase1 c)))"

definition audio_inv :: "real list \<Rightarrow> 's mod_state \<Rightarrow> bool" where
  "audio_inv w s = (concat (map fm_in (fm_calls s)) = take (offset s) w)"

definition stream_inv :: "'s dsp \<Rightarrow> OutputFormat \<Rightarrow> 's mod_state \<Rightarrow> bool" where
  "stream_inv D fmt s =
     (fout s = concat (map (\<lambda>c. sample_sink D fmt (ip_out c)) (written_calls (interp_calls s))) \<and>
      concat (map fm_out (fm_calls s)) = consumed (interp_calls s) @ mod_buf s)"

definition ip_log_inv :: "'s dsp \<Rightarrow> 's mod_state \<Rightarrow> bool" where
  "ip_log_inv D s =
     (\<forall>c\<in>set (interp_calls s). \<exists>st. fst (interpolate D st (ip_in c)) = ip_processed c \<and>
          fst (snd (interpolate D st (ip_in c))) = ip_out c)"

definition cover_inv :: "'s dsp \<Rightarrow> real list \<Rightarrow> 's mod_state \<Rightarrow> bool" where
  "cover_inv D w s =
     (mod_buf s = [] \<and> offset s \<le> length w \<and>
      written_calls (interp_calls s) = interp_calls s \<and>
      sum_list (map ip_processed (interp_calls s)) = offset s)"

section \<open>Properties of the sample sink\<close>

declare f32_to_s8_loop.simps [simp del]


lemma int_cast_small: "n < 2 ^ 31 \<Longrightarrow> int_cast n = int n"
  unfolding int_cast_def
  by (simp add: signed_of_nat signed_take_bit_int_eq_self)




lemma length_f32_to_s8_loop: "length (f32_to_s8_loop input n i result) = length result"
proof (induction input n i result rule: f32_to_s8_loop.induct)
  case (1 input n i result)
  then show ?case
    by (subst f32_to_s8_loop.simps) simp
qed

lemma length_f32_to_s8 [simp]: "length (f32_to_s8 input) = 2 * length input"
  by (simp add: f32_to_s8_def length_f32_to_s8_loop)






section \<open>Properties of \<open>modulate\<close>\<close>

lemma body_continue:
  "fst (modulate_body D fmt w k s) = (fst (pass_ip D w k s) \<noteq> 0)"
  by (simp add: modulate_body_def Let_def pass_ip_def pass_buf_def pass_fm_def pass_size_def)

lemma body_fm_calls:
  "fm_calls (snd (modulate_body D fmt w k s)) = fm_calls s @
     [\<lparr>fm_in = take (pass_size D w s) (drop (offset s) w), fm_sens = k,
       fm_phase0 = last_phase s, fm_out = fst (pass_fm D w k s),
       fm_phase1 = snd (pass_fm D w k s)\<rparr>]"
  by (simp add: modulate_body_def Let_def pass_ip_def pass_buf_def pass_fm_def pass_size_def)

lemma body_interp_calls:
  "interp_calls (snd (modulate_body D fmt w k s)) = interp_calls s @
     [\<lparr>ip_in = pass_buf D w k s, ip_processed = fst (pass_ip D w k s),
       ip_out = fst (snd (pass_ip D w k s))\<rparr>]"
  by (simp add: modulate_body_def Let_def pass_ip_def pass_buf_def pass_fm_def pass_size_def)

lemma body_last_phase:
  "last_phase (snd (modulate_body D fmt w k s)) = snd (pass_fm D w k s)"
  by (simp add: modulate_body_def Let_def pass_ip_def pass_buf_def pass_fm_def pass_size_def)

lemma body_mod_buf:
  "mod_buf (snd (modulate_body D fmt w k s)) = drop (fst (pass_ip D w k s)) (pass_buf D w k s)"
  by (simp add: modulate_body_def Let_def pass_ip_def pass_buf_def pass_fm_def pass_size_def
      del: drop_append)

lemma body_fout:
  "fout (snd (modulate_body D fmt w k s)) =
     (if fst (pass_ip D w k s) = 0 then fout s
      else fout s @ sample_sink D fmt (fst (snd (pass_ip D w k s))))"
  by (simp add: modulate_body_def Let_def pass_ip_def pass_buf_def pass_fm_def pass_size_def
      sample_sink_def)

lemma body_offset:
  "offset (snd (modulate_body D fmt w k s)) =
     (if fst (pass_ip D w k s) = 0 then offset s else offset s + pass_size D w s)"
  by (simp add: modulate_body_def Let_def pass_ip_def pass_buf_def pass_fm_def pass_size_def)

lemma modulate_body_offset:
  "fst (modulate_body D f w k s) \<Longrightarrow>
   offset (snd (modulate_body D f w k s)) = offset s + pass_size D w s"
  by (simp add: body_continue body_offset)

lemma modulate_loop_rule:
  assumes buf: "0 < BUFSIZE D"
    and init: "I s"
    and step: "\<And>s. I s \<Longrightarrow> int (offset s) < int_cast (length w) \<Longrightarrow>
                 fst (modulate_body D f w k s) \<Longrightarrow> I (snd (modulate_body D f w k s))"
    and brk: "\<And>s. I s \<Longrightarrow> int (offset s) < int_cast (length w) \<Longrightarrow>
                 \<not> fst (modulate_body D f w k s) \<Longrightarrow> Q (snd (modulate_body D f w k s))"
    and fin: "\<And>s. I s \<Longrightarrow> \<not> int (offset s) < int_cast (length w) \<Longrightarrow> Q s"
  shows "\<exists>t. modulate_loop D f w k s = Some t \<and> Q t"
  using init
proof (induction "nat (int_cast (length w) - int (offset s))" arbitrary: s rule: less_induct)
  case less
  show ?case
  proof (cases "int (offset s) < int_cast (length w)")
    case False
    then show ?thesis
      using fin[OF less.prems] by (subst modulate_loop.simps) simp
  next
    case True
    let ?r = "modulate_body D f w k s"
    show ?thesis
    proof (cases "fst ?r")
      case False
      then show ?thesis
        using True brk[OF less.prems True] by (subst modulate_loop.simps) (simp add: Let_def)
    next
      case c: True
      have off: "offset (snd ?r) = offset s + pass_size D w s"
        by (rule modulate_body_offset[OF c])
      have dec: "nat (int_cast (length w) - int (offset (snd ?r)))
          < nat (int_cast (length w) - int (offset s))"
        using off True buf by (simp add: pass_size_def)
      obtain t where "modulate_loop D f w k (snd ?r) = Some t" and "Q t"
        using less.hyps[OF dec step[OF less.prems True c]] by blast
      then show ?thesis
        using True c by (subst modulate_loop.simps) (simp add: Let_def)
    qed
  qed
qed

lemma phase_chain_snoc:
  "phase_chain p (cs @ [c]) = (phase_chain p cs \<and> fm_phase0 c = chain_end p cs)"
  by (induction cs arbitrary: p) (auto simp: chain_end_def)

lemma chain_end_snoc: "chain_end p (cs @ [c]) = fm_phase1 c"
  by (simp add: chain_end_def)




lemma phase_inv_body:
  assumes "phase_inv D k s"
  shows "phase_inv D k (snd (modulate_body D f w k s))"
proof -
  have "length (take (pass_size D w s) (drop (offset s) w)) \<le> BUFSIZE D"
    by (simp add: pass_size_def)
  then show ?thesis
    using assms
    by (auto simp: phase_inv_def body_fm_calls body_last_phase phase_chain_snoc chain_end_snoc
        pass_fm_def)
qed

lemma phase_inv_init: "phase_inv D k (modulate_init D)"
  by (simp add: phase_inv_def modulate_init_def chain_end_def)

lemma audio_inv_init: "audio_inv w (modulate_init D)"
  by (simp add: audio_inv_def modulate_init_def)

lemma audio_after_body:
  assumes "audio_inv w s"
  shows "concat (map fm_in (fm_calls (snd (modulate_body D f w k s)))) =
         take (offset s + pass_size D w s) w"
  using assms by (simp add: audio_inv_def body_fm_calls take_add)

lemma audio_inv_step:
  assumes "audio_inv w s" "fst (modulate_body D f w k s)"
  shows "audio_inv w (snd (modulate_body D f w k s))"
  using audio_after_body[OF assms(1), of D f k] assms(2)
  by (simp add: audio_inv_def modulate_body_offset)

lemma stream_inv_init: "stream_inv D fmt (modulate_init D)"
  by (simp add: stream_inv_def modulate_init_def written_calls_def consumed_def)

lemma stream_inv_body:
  assumes "stream_inv D fmt s"
  shows "stream_inv D fmt (snd (modulate_body D fmt w k s))"
proof -
  let ?t = "snd (modulate_body D fmt w k s)"
  have a: "fout ?t = concat (map (\<lambda>c. sample_sink D fmt (ip_out c)) (written_calls (interp_calls ?t)))"
    using assms by (simp add: stream_inv_def body_fout body_interp_calls written_calls_def)
  have "consumed (interp_calls ?t) @ mod_buf ?t = consumed (interp_calls s) @ pass_buf D w k s"
    by (simp add: body_interp_calls body_mod_buf consumed_def)
  also have "\<dots> = concat (map fm_out (fm_calls ?t))"
    using assms by (simp add: stream_inv_def body_fm_calls pass_buf_def)
  finally show ?thesis using a by (simp add: stream_inv_def)
qed

lemma cover_inv_init: "cover_inv D w (modulate_init D)"
  by (simp add: cover_inv_def modulate_init_def written_calls_def)

lemma cover_pass:
  assumes c: "cover_inv D w s" and g: "int (offset s) < int_cast (length w)"
    and len: "length w < 2 ^ 31" and fm: "fm_one_per_sample D" and ip: "interp_consumes_all D"
    and buf: "0 < BUFSIZE D"
  shows "fst (modulate_body D fmt w k s) \<and> cover_inv D w (snd (modulate_body D fmt w k s))"
proof -
  have ic: "int_cast (length w) = int (length w)"
    using len by (rule int_cast_small)
  have n: "0 < pass_size D w s" "offset s + pass_size D w s \<le> length w"
    using g buf unfolding ic pass_size_def by auto
  have "length (fst (pass_fm D w k s)) = length (take (pass_size D w s) (drop (offset s) w))"
    using fm unfolding fm_one_per_sample_def pass_fm_def by blast
  then have lb: "length (pass_buf D w k s) = pass_size D w s"
    using c n by (simp add: pass_buf_def cover_inv_def)
  have pr: "fst (pass_ip D w k s) = pass_size D w s"
    using ip lb unfolding interp_consumes_all_def pass_ip_def by simp
  show ?thesis
    using c n pr lb
    by (simp add: body_continue cover_inv_def body_mod_buf body_offset body_interp_calls
        written_calls_def)
qed

lemma ip_log_inv_init: "ip_log_inv D (modulate_init D)"
  by (simp add: ip_log_inv_def modulate_init_def)

lemma ip_log_inv_body:
  assumes "ip_log_inv D s"
  shows "ip_log_inv D (snd (modulate_body D fmt w k s))"
  using assms unfolding ip_log_inv_def body_interp_calls pass_ip_def
  by auto

lemma modulate_run:
  assumes buf: "0 < BUFSIZE D"
  shows "\<exists>t. modulate D w fmt = Some t \<and> phase_inv D (sensitivity_of 5000) t \<and>
     stream_inv D fmt t \<and> ip_log_inv D t \<and>
     (\<exists>m. concat (map fm_in (fm_calls t)) = take m w) \<and>
     (length w < 2 ^ 31 \<and> fm_one_per_sample D \<and> interp_consumes_all D \<longrightarrow>
        cover_inv D w t \<and> offset t = length w \<and> concat (map fm_in (fm_calls t)) = w)"
proof -
  let ?k = "sensitivity_of 5000"
  let ?C = "length w < 2 ^ 31 \<and> fm_one_per_sample D \<and> interp_consumes_all D"
  let ?I = "\<lambda>s. phase_inv D ?k s \<and> stream_inv D fmt s \<and> ip_log_inv D s \<and> audio_inv w s \<and> (?C \<longrightarrow> cover_inv D w s)"
  let ?Q = "\<lambda>s. phase_inv D ?k s \<and> stream_inv D fmt s \<and> ip_log_inv D s \<and>
     (\<exists>m. concat (map fm_in (fm_calls s)) = take m w) \<and>
     (?C \<longrightarrow> cover_inv D w s \<and> offset s = length w \<and> concat (map fm_in (fm_calls s)) = w)"
  have "\<exists>t. modulate_loop D fmt w ?k (modulate_init D) = Some t \<and> ?Q t"
  proof (rule modulate_loop_rule[where I = ?I and Q = ?Q, OF buf])
    show "?I (modulate_init D)"
      by (simp add: phase_inv_init stream_inv_init audio_inv_init cover_inv_init ip_log_inv_init)
  next
    fix s assume i: "?I s" and g: "int (offset s) < int_cast (length w)"
      and c: "fst (modulate_body D fmt w ?k s)"
    show "?I (snd (modulate_body D fmt w ?k s))"
      using i c g cover_pass[of D w s fmt ?k] buf
      by (simp add: phase_inv_body stream_inv_body audio_inv_step ip_log_inv_body)
  next
    fix s assume i: "?I s" and g: "int (offset s) < int_cast (length w)"
      and c: "\<not> fst (modulate_body D fmt w ?k s)"
    have "\<not> ?C" using i c g cover_pass[of D w s fmt ?k] buf by blast
    moreover have "\<exists>m. concat (map fm_in (fm_calls (snd (modulate_body D fmt w ?k s)))) = take m w"
      using i audio_after_body[of w s D fmt ?k] by blast
    moreover have "phase_inv D ?k (snd (modulate_body D fmt w ?k s))"
      "stream_inv D fmt (snd (modulate_body D fmt w ?k s))"
      "ip_log_inv D (snd (modulate_body D fmt w ?k s))"
      using i by (simp_all add: phase_inv_body stream_inv_body ip_log_inv_body)
    ultimately show "?Q (snd (modulate_body D fmt w ?k s))"
      by blast
  next
    fix s assume i: "?I s" and g: "\<not> int (offset s) < int_cast (length w)"
    have "\<exists>m. concat (map fm_in (fm_calls s)) = take m w"
      using i unfolding audio_inv_def by blast
    moreover have "offset s = length w \<and> concat (map fm_in (fm_calls s)) = w" if "?C"
    proof -
      have "int_cast (length w) = int (length w)" using that by (simp add: int_cast_small)
      then have "offset s = length w"
        using g i that by (simp add: cover_inv_def)
      then show ?thesis using i by (simp add: audio_inv_def)
    qed
    ultimately show "?Q s" using i by blast
  qed
  then show ?thesis by (simp add: modulate_def Let_def)
qed


lemma loop_step:
  "int (offset s) < int_cast (length w) \<Longrightarrow> fst (modulate_body D f w k s) \<Longrightarrow>
   modulate_loop D f w k s = modulate_loop D f w k (snd (modulate_body D f w k s))"
  by (subst modulate_loop.simps) (simp add: Let_def)

lemma loop_done:
  "\<not> int (offset s) < int_cast (length w) \<Longrightarrow> modulate_loop D f w k s = Some s"
  by (subst modulate_loop.simps) simp

lemma ref_dsp_sel:
  "BUFSIZE (ref_dsp b h) = b" "fmmod (ref_dsp b h) = fmmod_spec"
  "interpolate (ref_dsp b h) = hold_interpolate h"
  by (simp_all add: ref_dsp_def)

text \<open>
  Claim C2, counterexample to the flush: three audio samples in chunks of two, with an
  interpolator that keeps the last buffered sample back for its next call. \<open>modulate\<close>
  returns after the second chunk with that sample still in the ring buffer: it wrote 200
  bytes, the output for two of the three samples.
\<close>

theorem modulate_drops_tail:
  "map_option (length \<circ> fout) (modulate (ref_dsp 2 1) [0, 0, 0] IQ_S8) = Some 200 \<and>
   map_option mod_buf (modulate (ref_dsp 2 1) [0, 0, 0] IQ_S8) = Some [1] \<and>
   map_option offset (modulate (ref_dsp 2 1) [0, 0, 0] IQ_S8) = Some 3 \<and>
   length [0 :: real, 0, 0] * 50 * 2 = 300"
proof -
  define D where "D = ref_dsp 2 1"
  define w where "w = ([0, 0, 0] :: real list)"
  define k where "k = sensitivity_of 5000"
  define s0 where "s0 = modulate_init D"
  define s1 where "s1 = snd (modulate_body D IQ_S8 w k s0)"
  define s2 where "s2 = snd (modulate_body D IQ_S8 w k s1)"
  have sel: "BUFSIZE D = 2" "fmmod D = fmmod_spec" "interpolate D = hold_interpolate 1"
    by (simp_all add: D_def ref_dsp_sel)
  have ic: "int_cast (length w) = 3"
    by (simp add: int_cast_def w_def)
  have s0: "offset s0 = 0" "mod_buf s0 = []" "last_phase s0 = 0" "fout s0 = []"
    by (simp_all add: modulate_init_def s0_def)
  have n0: "pass_size D w s0 = 2"
    unfolding pass_size_def ic s0 sel by simp
  have fm0: "pass_fm D w k s0 = ([1, 1], 0)"
    unfolding pass_fm_def n0 s0 sel by (simp add: w_def)
  have ip0: "pass_ip D w k s0 = (1, replicate 50 1, ())"
    unfolding pass_ip_def pass_buf_def fm0 s0 sel by (simp add: hold_interpolate_def)
  have c0: "fst (modulate_body D IQ_S8 w k s0)"
    unfolding body_continue ip0 by simp
  note b0 = body_offset[of D IQ_S8 w k s0] body_mod_buf[of D IQ_S8 w k s0]
    body_last_phase[of D IQ_S8 w k s0] body_fout[of D IQ_S8 w k s0]
  have s1: "offset s1 = 2" "mod_buf s1 = [1]" "last_phase s1 = 0" "length (fout s1) = 100"
    unfolding s1_def b0 ip0 fm0 n0 s0 pass_buf_def
    by (simp_all add: sample_sink_def)
  have n1: "pass_size D w s1 = 1"
    unfolding pass_size_def ic s1 sel by simp
  have fm1: "pass_fm D w k s1 = ([1], 0)"
    unfolding pass_fm_def n1 s1 sel by (simp add: w_def)
  have ip1: "pass_ip D w k s1 = (1, replicate 50 1, ())"
    unfolding pass_ip_def pass_buf_def fm1 s1 sel by (simp add: hold_interpolate_def)
  have c1: "fst (modulate_body D IQ_S8 w k s1)"
    unfolding body_continue ip1 by simp
  note b1 = body_offset[of D IQ_S8 w k s1] body_mod_buf[of D IQ_S8 w k s1]
    body_fout[of D IQ_S8 w k s1]
  have s2: "offset s2 = 3" "mod_buf s2 = [1]" "length (fout s2) = 200"
    unfolding s2_def b1 ip1 fm1 n1 pass_buf_def
    by (simp_all add: sample_sink_def s1)
  have "modulate D w IQ_S8 = modulate_loop D IQ_S8 w k s0"
    by (simp add: modulate_def k_def s0_def)
  also have "\<dots> = modulate_loop D IQ_S8 w k s1"
    unfolding s1_def by (rule loop_step) (simp_all add: s0 c0 ic)
  also have "\<dots> = modulate_loop D IQ_S8 w k s2"
    unfolding s2_def by (rule loop_step) (simp_all add: s1 c1 ic)
  also have "\<dots> = Some s2"
    by (rule loop_done) (simp add: s2 ic)
  finally have r: "modulate (ref_dsp 2 1) [0, 0, 0] IQ_S8 = Some s2"
    unfolding D_def w_def .
  show ?thesis
    unfolding r by (simp add: s2)
qed

lemma length_fmmod_spec: "length (fst (fmmod_spec xs k p)) = length xs"
  by (induction xs arbitrary: p) (simp_all add: Let_def)

lemma length_concat_replicate: "length (concat (map (replicate n) xs)) = n * length xs"
  by (induction xs) simp_all

lemma ref_dsp_fm_one: "fm_one_per_sample (ref_dsp b h)"
  by (simp add: fm_one_per_sample_def ref_dsp_sel length_fmmod_spec)

lemma ref_dsp_consumes_all: "interp_consumes_all (ref_dsp b 0)"
  by (simp add: interp_consumes_all_def ref_dsp_sel hold_interpolate_def)

lemma ref_dsp_fifty: "interp_fifty_per_sample (ref_dsp b h)"
  by (auto simp: interp_fifty_per_sample_def ref_dsp_sel hold_interpolate_def
      length_concat_replicate Let_def min_def)



text \<open>
  Claim C2, as the code has it. When \<open>BUFSIZE\<close> is positive, \<open>modulate\<close> returns; the bytes
  it wrote are the sink's bytes of the interpolator's output buffers, in the order of the
  calls, leaving out a call that returned 0 (the \<open>break\<close>); every sample that \<open>fmmod\<close>
  pushed into the ring buffer was consumed by a call of \<open>interpolate\<close> or is still in the
  ring buffer when \<open>modulate\<close> returns, where it is dropped: there is no flush. The audio
  slices are consecutive pieces of the waveform from its start. When the waveform has
  fewer than \<open>2 ^ 31\<close> samples, \<open>fmmod\<close> pushes one sample per audio sample and every call
  of \<open>interpolate\<close> processes the whole ring buffer, the whole waveform is covered and
  nothing is left in the ring buffer.
\<close>

theorem modulate_stream_no_flush:
  assumes "0 < BUFSIZE D"
  shows "\<exists>t. modulate D waveform fmt = Some t \<and>
     fout t = concat (map (\<lambda>c. sample_sink D fmt (ip_out c)) (written_calls (interp_calls t))) \<and>
     concat (map fm_out (fm_calls t)) = consumed (interp_calls t) @ mod_buf t \<and>
     (\<exists>m. concat (map fm_in (fm_calls t)) = take m waveform) \<and>
     (length waveform < 2 ^ 31 \<and> fm_one_per_sample D \<and> interp_consumes_all D \<longrightarrow>
        concat (map fm_in (fm_calls t)) = waveform \<and> mod_buf t = [] \<and>
        written_calls (interp_calls t) = interp_calls t)"
proof -
  obtain t where t: "modulate D waveform fmt = Some t"
    and st: "stream_inv D fmt t"
    and a: "\<exists>m. concat (map fm_in (fm_calls t)) = take m waveform"
    and c: "length waveform < 2 ^ 31 \<and> fm_one_per_sample D \<and> interp_consumes_all D \<longrightarrow>
        cover_inv D waveform t \<and> offset t = length waveform \<and>
        concat (map fm_in (fm_calls t)) = waveform"
    using modulate_run[OF assms, of waveform fmt] by blast
  show ?thesis
    using t st a c unfolding stream_inv_def cover_inv_def by blast
qed

text \<open>
  Claim C2, witness: three audio samples in chunks of two, with an interpolator that
  processes the whole ring buffer.
\<close>

theorem modulate_stream_no_flush_witness:
  "0 < BUFSIZE (ref_dsp 2 0) \<and> length [0 :: real, 0, 0] < 2 ^ 31 \<and>
   fm_one_per_sample (ref_dsp 2 0) \<and> interp_consumes_all (ref_dsp 2 0) \<and>
   (\<exists>t. modulate (ref_dsp 2 0) [0, 0, 0] IQ_S8 = Some t \<and>
     fout t = concat (map (\<lambda>c. sample_sink (ref_dsp 2 0) IQ_S8 (ip_out c))
                (written_calls (interp_calls t))) \<and>
     concat (map fm_out (fm_calls t)) = consumed (interp_calls t) @ mod_buf t \<and>
     concat (map fm_in (fm_calls t)) = [0, 0, 0] \<and> mod_buf t = [] \<and>
     written_calls (interp_calls t) = interp_calls t)"
proof -
  have b: "0 < BUFSIZE (ref_dsp 2 0)"
    by (simp add: ref_dsp_sel)
  have l: "length [0 :: real, 0, 0] < 2 ^ 31"
    by simp
  show ?thesis
    using b l ref_dsp_fm_one[of 2 0] ref_dsp_consumes_all[of 2]
      modulate_stream_no_flush [OF b, of "[0, 0, 0]" IQ_S8]
    by blast
qed

section \<open>Properties of \<open>gen_iq_s8\<close>\<close>





lemma length_sink_s8:
  "\<forall>c\<in>set cs. length (ip_out c) = 50 * ip_processed c \<Longrightarrow>
   length (concat (map (\<lambda>c. sample_sink D IQ_S8 (ip_out c)) cs)) =
     100 * sum_list (map ip_processed cs)"
  by (induction cs) (simp_all add: sample_sink_def)

lemma modulate_s8_length:
  assumes "0 < BUFSIZE D" and "length w < 2 ^ 31"
    and "fm_one_per_sample D" and "interp_consumes_all D" and "interp_fifty_per_sample D"
  shows "\<exists>t. modulate D w IQ_S8 = Some t \<and> length (fout t) = length w * 100"
proof -
  obtain t where t: "modulate D w IQ_S8 = Some t"
    and st: "stream_inv D IQ_S8 t" and lg: "ip_log_inv D t"
    and cv: "cover_inv D w t" and off: "offset t = length w"
    using modulate_run[OF assms(1), of w IQ_S8] assms(2-4) by blast
  have each: "\<forall>c\<in>set (interp_calls t). length (ip_out c) = 50 * ip_processed c"
    using lg assms(5) unfolding ip_log_inv_def interp_fifty_per_sample_def by metis
  have "length (fout t) = 100 * sum_list (map ip_processed (interp_calls t))"
    using st cv length_sink_s8[OF each, of D] unfolding stream_inv_def cover_inv_def by simp
  then have "length (fout t) = length w * 100"
    using cv off unfolding cover_inv_def by simp
  then show ?thesis using t by blast
qed

lemma modulate_returns: "0 < BUFSIZE D \<Longrightarrow> \<exists>t. modulate D w fmt = Some t"
  using modulate_run[of D w fmt] by blast





lemma length_nrzi_from: "length (nrzi_from l bits) = length bits"
  by (induction bits arbitrary: l) (simp_all add: Let_def)

lemma length_tone: "length (fst (tone f p n)) = n"
  by (induction n arbitrary: p) (simp_all add: Let_def)

lemma length_afsk_from: "length (afsk_from p bits) = 40 * length bits"
  by (induction bits arbitrary: p) (simp_all add: Let_def length_tone del: tone.simps)

lemma ref_dsp_front:
  "ax25frame (ref_dsp b h) = ax25frame_spec" "nrzi (ref_dsp b h) = nrzi_spec"
  "afsk (ref_dsp b h) = afsk_spec"
  by (simp_all add: ref_dsp_def)



lemma default_frame_bits:
  "length (ax25frame_spec ''KD9WPR'' ''APRS'' ''WIDE1-1,WIDE2-1'' ''Hello from default config!''
     False) = 480"
  by code_simp







text \<open>A path of fewer than 63 characters reaches the frame builder unchanged.\<close>

lemma gen_path_short:
  "length user_path < 63 \<Longrightarrow> CHR 0x00 \<notin> set user_path \<Longrightarrow> gen_path env user_path = user_path"
proof -
  assume a: "length user_path < 63" "CHR 0x00 \<notin> set user_path"
  have "63 - length user_path = Suc (62 - length user_path)"
    using a(1) by simp
  then have "take 63 (user_path @ replicate 63 (CHR 0x00)) =
      user_path @ CHR 0x00 # replicate (62 - length user_path) (CHR 0x00)"
    using a(1) by simp
  then show ?thesis
    using a(2) by (simp add: gen_path_def strncpy_def c_str_def takeWhile_append)
qed

text \<open>
  Claim C9, the code at a failing input. A digipeater path of eight entries has 63
  characters, so \<open>strncpy(path, user_path, 63)\<close> writes no terminator and \<open>path[63]\<close> keeps
  what the stack held. Two calls with the same arguments hand different paths to the frame
  builder: the path itself when the stack byte is zero, the path followed by \<open>5\<close> when the
  stack holds the character \<open>5\<close> and then a zero.
\<close>

theorem gen_path_reads_beyond_copy:
  "length eight_digis = 63 \<and>
   gen_path (env_with_stack (replicate 63 (CHR ''x'') @ [CHR 0x00])) eight_digis = eight_digis \<and>
   gen_path (env_with_stack (replicate 63 (CHR ''x'') @ ''5'' @ [CHR 0x00])) eight_digis =
     eight_digis @ ''5''"
  by (simp add: gen_path_def strncpy_def c_str_def env_with_stack_def eight_digis_def)

section \<open>Properties of \<open>run_aprs\<close>\<close>

lemma run_aprs_unfold:
  "run_aprs D fopen_ok config =
     (if output config \<noteq> [] \<and> \<not> fopen_ok (output config) then Some (1, [])
      else if iq_sf config = PCM_F32 then Some (0, fwrite_f32 D (aprs_wave D config))
      else (case modulate D (aprs_wave D config) (iq_sf config) of
              None \<Rightarrow> None
            | Some t \<Rightarrow> Some (0, fout t)))"
  unfolding run_aprs_def aprs_wave_def aprs_frame_def Let_def ..



lemma c_str_plain: "CHR 0x00 \<notin> set s \<Longrightarrow> c_str s = s"
  by (auto simp: c_str_def takeWhile_eq_all_conv)

text \<open>
  Claim C5, as the code has it. A configuration whose callsign is empty is not rejected:
  \<open>run_aprs\<close> builds the frame with the callsign \<open>KD9WPR\<close> and behaves as it does for that
  callsign; with a positive \<open>BUFSIZE\<close> and an output that opens it returns 0 after writing
  the output.
\<close>

theorem run_aprs_empty_callsign:
  assumes "callsign config = []"
  shows "aprs_frame D config =
       ax25frame D ''KD9WPR'' (c_str (dest config)) (c_str (path config))
         (c_str (if info config \<noteq> [] then info config else ''Hello from APRS default message''))
         False \<and>
     run_aprs D fopen_ok config = run_aprs D fopen_ok (config\<lparr>callsign := ''KD9WPR''\<rparr>) \<and>
     (0 < BUFSIZE D \<and> (output config = [] \<or> fopen_ok (output config)) \<longrightarrow>
        (\<exists>bytes. run_aprs D fopen_ok config = Some (0, bytes)))"
proof -
  have f: "aprs_frame D config =
       ax25frame D ''KD9WPR'' (c_str (dest config)) (c_str (path config))
         (c_str (if info config \<noteq> [] then info config else ''Hello from APRS default message''))
         False"
    using assms by (simp add: aprs_frame_def c_str_def)
  have "aprs_frame D (config\<lparr>callsign := ''KD9WPR''\<rparr>) = aprs_frame D config"
    using assms by (simp add: aprs_frame_def)
  then have e: "run_aprs D fopen_ok config = run_aprs D fopen_ok (config\<lparr>callsign := ''KD9WPR''\<rparr>)"
    by (simp add: run_aprs_unfold aprs_wave_def)
  have r: "\<exists>bytes. run_aprs D fopen_ok config = Some (0, bytes)"
    if b: "0 < BUFSIZE D" and o: "output config = [] \<or> fopen_ok (output config)"
  proof -
    obtain t where "modulate D (aprs_wave D config) (iq_sf config) = Some t"
      using modulate_returns[OF b] by blast
    then show ?thesis
      using o by (auto simp: run_aprs_unfold)
  qed
  show ?thesis
    using f e r by blast
qed

text \<open>
  Claim C5, witness: the built-in configuration with the callsign emptied.
\<close>

theorem run_aprs_empty_callsign_witness:
  "callsign (default_config\<lparr>callsign := []\<rparr>) = [] \<and> 0 < BUFSIZE (ref_dsp 4096 0) \<and>
   fopen_always (output (default_config\<lparr>callsign := []\<rparr>)) \<and>
   run_aprs (ref_dsp 4096 0) fopen_always (default_config\<lparr>callsign := []\<rparr>) =
     run_aprs (ref_dsp 4096 0) fopen_always (default_config\<lparr>callsign := [], callsign := ''KD9WPR''\<rparr>) \<and>
   (\<exists>bytes. run_aprs (ref_dsp 4096 0) fopen_always (default_config\<lparr>callsign := []\<rparr>) =
      Some (0, bytes))"
proof -
  have c: "callsign (default_config\<lparr>callsign := []\<rparr>) = []"
    by simp
  have b: "0 < BUFSIZE (ref_dsp 4096 0)"
    by (simp add: ref_dsp_sel)
  have o: "fopen_always (output (default_config\<lparr>callsign := []\<rparr>))"
    by (simp add: fopen_always_def)
  show ?thesis
    using c b o run_aprs_empty_callsign [OF c, of "ref_dsp 4096 0" fopen_always]
    by blast
qed

lemma default_wave_empty_callsign:
  "aprs_frame (ref_dsp b h) (default_config\<lparr>callsign := []\<rparr>) =
     ax25frame_spec ''KD9WPR'' ''APRS'' ''WIDE1-1,WIDE2-1'' ''Hello from default config!'' False"
  by (simp add: aprs_frame_def ref_dsp_front default_config_def c_str_def)

text \<open>
  Claim C5, counterexample: the built-in configuration with the callsign emptied, in IQ_S8
  mode. \<open>run_aprs\<close> builds the 480-bit frame of \<open>KD9WPR\<close>, writes 1,920,000 bytes and
  returns 0, exactly as it does for the built-in configuration itself.
\<close>

theorem run_aprs_accepts_empty_callsign:
  "callsign (default_config\<lparr>callsign := []\<rparr>) = [] \<and>
   aprs_frame (ref_dsp 4096 0) (default_config\<lparr>callsign := []\<rparr>) =
     ax25frame_spec ''KD9WPR'' ''APRS'' ''WIDE1-1,WIDE2-1'' ''Hello from default config!'' False \<and>
   map_option fst (run_aprs (ref_dsp 4096 0) fopen_always (default_config\<lparr>callsign := []\<rparr>))
     = Some 0 \<and>
   map_option (length \<circ> snd)
     (run_aprs (ref_dsp 4096 0) fopen_always (default_config\<lparr>callsign := []\<rparr>)) = Some 1920000 \<and>
   run_aprs (ref_dsp 4096 0) fopen_always (default_config\<lparr>callsign := []\<rparr>) =
     run_aprs (ref_dsp 4096 0) fopen_always default_config"
proof -
  let ?D = "ref_dsp 4096 0" and ?c = "default_config\<lparr>callsign := []\<rparr>"
  have fr: "aprs_frame ?D ?c =
      ax25frame_spec ''KD9WPR'' ''APRS'' ''WIDE1-1,WIDE2-1'' ''Hello from default config!'' False"
    by (rule default_wave_empty_callsign)
  have fr': "aprs_frame ?D default_config = aprs_frame ?D ?c"
    unfolding fr by (simp add: aprs_frame_def ref_dsp_front default_config_def c_str_def)
  have n: "length (aprs_wave ?D ?c) = 19200"
    by (simp add: aprs_wave_def fr ref_dsp_front afsk_spec_def nrzi_spec_def length_afsk_from
        length_nrzi_from default_frame_bits)
  have b: "0 < BUFSIZE ?D"
    by (simp add: ref_dsp_sel)
  obtain t where t: "modulate ?D (aprs_wave ?D ?c) IQ_S8 = Some t"
      "length (fout t) = length (aprs_wave ?D ?c) * 100"
    using modulate_s8_length[OF b _ ref_dsp_fm_one ref_dsp_consumes_all ref_dsp_fifty,
        of "aprs_wave ?D ?c"] n
    by auto
  have sel: "output ?c = ''pkt8.s8''" "iq_sf ?c = IQ_S8" "output default_config = ''pkt8.s8''"
    "iq_sf default_config = IQ_S8"
    by (simp_all add: default_config_def)
  have r: "run_aprs ?D fopen_always ?c = Some (0, fout t)"
    by (simp add: run_aprs_unfold sel fopen_always_def t(1))
  have r': "run_aprs ?D fopen_always default_config = Some (0, fout t)"
    using t(1) by (simp add: run_aprs_unfold sel fopen_always_def aprs_wave_def fr')
  show ?thesis
    using fr by (simp add: r r' t(2) n)
qed




section \<open>Properties of the framing stages\<close>

subsection \<open>Bit stuffing\<close>

lemma stuffed_ok_stuff: "ones < 5 \<Longrightarrow> stuffed_ok ones (stuff ones bits)"
  by (induction bits arbitrary: ones) auto

lemma unstuff_stuff: "ones < 5 \<Longrightarrow> unstuff ones (stuff ones bits) = bits"
  by (induction bits arbitrary: ones) auto

lemma stuffed_ok_run:
  "stuffed_ok k (replicate m True @ ys) \<Longrightarrow>
     (0 < m \<longrightarrow> k + m \<le> 5) \<and> stuffed_ok (k + m) ys"
proof (induction m arbitrary: k)
  case 0
  then show ?case by simp
next
  case (Suc m)
  then have k: "k < 5" and r: "stuffed_ok (Suc k) (replicate m True @ ys)"
    by simp_all
  from Suc.IH[OF r] k show ?case by (cases m) auto
qed

lemma stuffed_ok_drop: "stuffed_ok k xs \<Longrightarrow> \<exists>k'. stuffed_ok k' (drop i xs)"
proof (induction xs arbitrary: k i)
  case Nil
  then show ?case by auto
next
  case (Cons b bs)
  show ?case
  proof (cases i)
    case 0
    with Cons.prems show ?thesis by auto
  next
    case (Suc j)
    have "\<exists>k'. stuffed_ok k' bs"
      using Cons.prems by (auto split: if_splits)
    then show ?thesis
      using Cons.IH Suc by auto
  qed
qed

lemma no_six_ones: "stuffed_ok k xs \<Longrightarrow> \<not> six_ones_at xs i"
proof
  assume ok: "stuffed_ok k xs" and six: "six_ones_at xs i"
  obtain k' where k': "stuffed_ok k' (drop i xs)"
    using stuffed_ok_drop[OF ok] by blast
  have "drop i xs = replicate 6 True @ drop 6 (drop i xs)"
    using six append_take_drop_id[of 6 "drop i xs"] unfolding six_ones_at_def by simp
  then have "stuffed_ok k' (replicate 6 True @ drop 6 (drop i xs))"
    using k' by simp
  from stuffed_ok_run[OF this] show False by simp
qed

lemma five_then_zero:
  assumes ok: "stuffed_ok k xs" and five: "five_ones_at xs i"
  shows "i + 5 < length xs \<and> \<not> xs ! (i + 5)"
proof -
  obtain k' where k': "stuffed_ok k' (drop i xs)"
    using stuffed_ok_drop[OF ok] by blast
  let ?rest = "drop 5 (drop i xs)"
  have "drop i xs = replicate 5 True @ ?rest"
    using five append_take_drop_id[of 5 "drop i xs"] unfolding five_ones_at_def by simp
  then have "stuffed_ok k' (replicate 5 True @ ?rest)"
    using k' by simp
  from stuffed_ok_run[OF this] have r: "stuffed_ok 5 ?rest"
    by (cases "k' = 0") auto
  then obtain bs where bs: "?rest = False # bs"
    by (cases ?rest) (auto split: if_splits)
  then have d: "drop (i + 5) xs = False # bs"
    by (simp add: add.commute)
  then have "i + 5 < length xs"
    by (metis drop_all list.distinct(1) not_le)
  moreover have "xs ! (i + 5) = hd (drop (i + 5) xs)"
    using calculation by (simp add: hd_drop_conv_nth)
  ultimately show ?thesis using d by simp
qed

lemma flag_bits_eq: "flag_bits = [False, True, True, True, True, True, True, False]"
  by code_simp

lemma six_ones_nth:
  "six_ones_at xs i \<Longrightarrow> i + 6 \<le> length xs \<and> (\<forall>j<6. xs ! (i + j))"
proof -
  assume a: "six_ones_at xs i"
  have l: "length (take 6 (drop i xs)) = 6"
    using a unfolding six_ones_at_def by simp
  then have len: "i + 6 \<le> length xs" by simp
  have "xs ! (i + j)" if "j < 6" for j
  proof -
    have "take 6 (drop i xs) ! j = xs ! (i + j)"
      using that len by simp
    moreover have "take 6 (drop i xs) ! j = True"
      using a that unfolding six_ones_at_def by simp
    ultimately show ?thesis by simp
  qed
  then show ?thesis using len by blast
qed

lemma six_ones_in_frame:
  assumes six: "six_ones_at (flag_bits @ S @ flag_bits) i" and no: "\<And>j. \<not> six_ones_at S j"
  shows "i = 1 \<or> i = 9 + length S"
proof -
  let ?out = "flag_bits @ S @ flag_bits"
  have len: "i + 6 \<le> 16 + length S" and all: "\<And>j. j < 6 \<Longrightarrow> ?out ! (i + j)"
    using six_ones_nth[OF six] by (simp_all add: flag_bits_eq)
  have z0: "\<not> ?out ! 0" and z7: "\<not> ?out ! 7"
    by (simp_all add: flag_bits_eq)
  have z8: "\<not> ?out ! (8 + length S)" and z15: "\<not> ?out ! (15 + length S)"
    by (simp_all add: flag_bits_eq nth_append)
  consider "i = 0" | "i = 1" | "2 \<le> i \<and> i \<le> 7" | "8 \<le> i \<and> i + 6 \<le> 8 + length S"
    | "8 \<le> i \<and> 8 + length S < i + 6 \<and> i \<le> 8 + length S" | "i = 9 + length S"
    | "i = 10 + length S"
    using len by linarith
  then show ?thesis
  proof cases
    case 1
    then show ?thesis using all[of 0] z0 by simp
  next
    case 2
    then show ?thesis by simp
  next
    case 3
    then have "7 - i < 6" "i + (7 - i) = 7" by auto
    then show ?thesis using all[of "7 - i"] z7 by simp
  next
    case 4
    have l8: "length flag_bits = 8" by (simp add: flag_bits_eq)
    have "take 6 (drop i ?out) = take 6 (drop (i - 8) S)"
      using 4 by (simp add: l8)
    then have "six_ones_at S (i - 8)"
      using six unfolding six_ones_at_def by simp
    then show ?thesis using no by blast
  next
    case 5
    then have "8 + length S - i < 6" "i + (8 + length S - i) = 8 + length S" by auto
    then show ?thesis using all[of "8 + length S - i"] z8 by simp
  next
    case 6
    then show ?thesis by simp
  next
    case 7
    then have "i + 5 = 15 + length S" by simp
    then show ?thesis using all[of 5] z15 by simp
  qed
qed

lemma six_ones_of_flags:
  "six_ones_at (flag_bits @ S @ flag_bits) 1 \<and>
   six_ones_at (flag_bits @ S @ flag_bits) (9 + length S)"
  by (simp add: six_ones_at_def flag_bits_eq numeral_eq_Suc)


text \<open>
  Claim C8. For every frame handed to the bit serialiser, the output is the opening flag,
  the stuffed frame bits and the closing flag; removing the bit that follows each run of
  five 1 bits gives back the frame bits, so that the stuffed stream is the frame bits (of
  all bytes in one sequence, the count running across byte boundaries) with inserted bits
  only; wherever five consecutive 1 bits stand in the stuffed stream a 0 bit follows; the
  stuffed stream has no window of six 1 bits; and in the whole output a window of six 1
  bits starts at position 1 or at position \<open>9 + n\<close> (\<open>n\<close> the length of the stuffed stream)
  and nowhere else, that is at the six 1 bits of the opening and of the closing flag.
\<close>

theorem serialize_stuffing:
  "serialize bytes = flag_bits @ stuff 0 (frame_bits bytes) @ flag_bits \<and>
   unstuff 0 (stuff 0 (frame_bits bytes)) = frame_bits bytes \<and>
   (\<forall>i. five_ones_at (stuff 0 (frame_bits bytes)) i \<longrightarrow>
      i + 5 < length (stuff 0 (frame_bits bytes)) \<and> \<not> stuff 0 (frame_bits bytes) ! (i + 5)) \<and>
   (\<forall>i. \<not> six_ones_at (stuff 0 (frame_bits bytes)) i) \<and>
   (\<forall>i. six_ones_at (serialize bytes) i \<longleftrightarrow>
      i = 1 \<or> i = 9 + length (stuff 0 (frame_bits bytes)))"
proof -
  let ?S = "stuff 0 (frame_bits bytes)"
  have ok: "stuffed_ok 0 ?S"
    by (rule stuffed_ok_stuff) simp
  have a: "serialize bytes = flag_bits @ ?S @ flag_bits"
    by (simp add: serialize_def)
  have b: "unstuff 0 ?S = frame_bits bytes"
    by (rule unstuff_stuff) simp
  have c: "\<forall>i. five_ones_at ?S i \<longrightarrow> i + 5 < length ?S \<and> \<not> ?S ! (i + 5)"
    using five_then_zero[OF ok] by blast
  have d: "\<forall>i. \<not> six_ones_at ?S i"
    using no_six_ones[OF ok] by blast
  have e: "\<forall>i. six_ones_at (serialize bytes) i \<longleftrightarrow> i = 1 \<or> i = 9 + length ?S"
  proof (intro allI iffI)
    fix i
    assume "six_ones_at (serialize bytes) i"
    then have "six_ones_at (flag_bits @ ?S @ flag_bits) i"
      by (simp only: a)
    then show "i = 1 \<or> i = 9 + length ?S"
      using d by (intro six_ones_in_frame) auto
  next
    fix i
    assume "i = 1 \<or> i = 9 + length ?S"
    then show "six_ones_at (serialize bytes) i"
      using six_ones_of_flags[of ?S] by (auto simp only: a)
  qed
  from a b c d e show ?thesis by blast
qed

text \<open>The two bytes \<open>0xFF 0xFF\<close>, sixteen 1 bits, after stuffing.\<close>

lemma stuff_two_ff:
  "stuff 0 (frame_bits [0xFF, 0xFF]) =
     [True, True, True, True, True, False, True, True, True, True, True, False,
      True, True, True, True, True, False, True]"
  by code_simp

text \<open>
  Claim C8, witness: the frame \<open>0xFF 0xFF\<close>. The second run of five 1 bits, which starts in
  the first byte and ends in the second, is at positions 6 to 10 of the stuffed stream and
  position 11 holds a 0; the 35 output bits have their windows of six 1 bits at positions
  1 and 28, inside the flags, and none at position 9.
\<close>

theorem serialize_stuffing_witness:
  "five_ones_at (stuff 0 (frame_bits [0xFF, 0xFF])) 6 \<and>
   6 + 5 < length (stuff 0 (frame_bits [0xFF, 0xFF])) \<and>
   \<not> stuff 0 (frame_bits [0xFF, 0xFF]) ! (6 + 5) \<and>
   six_ones_at (serialize [0xFF, 0xFF]) 1 \<and>
   six_ones_at (serialize [0xFF, 0xFF]) 28 \<and>
   \<not> six_ones_at (serialize [0xFF, 0xFF]) 9 \<and>
   length (serialize [0xFF, 0xFF]) = 35"
proof -
  note t = serialize_stuffing[of "[0xFF, 0xFF]"]
  have five: "five_ones_at (stuff 0 (frame_bits [0xFF, 0xFF])) 6"
    by (simp add: stuff_two_ff five_ones_at_def numeral_eq_Suc)
  have len: "length (stuff 0 (frame_bits [0xFF, 0xFF])) = 19"
    by (simp add: stuff_two_ff)
  have fl: "length flag_bits = 8"
    by (simp add: flag_bits_eq)
  have z: "6 + 5 < length (stuff 0 (frame_bits [0xFF, 0xFF])) \<and>
      \<not> stuff 0 (frame_bits [0xFF, 0xFF]) ! (6 + 5)"
    using t five by blast
  have w: "\<forall>i. six_ones_at (serialize [0xFF, 0xFF]) i \<longleftrightarrow>
      i = 1 \<or> i = 9 + length (stuff 0 (frame_bits [0xFF, 0xFF]))"
    using t by blast
  have six: "six_ones_at (serialize [0xFF, 0xFF]) 1 \<and> six_ones_at (serialize [0xFF, 0xFF]) 28 \<and>
      \<not> six_ones_at (serialize [0xFF, 0xFF]) 9"
    by (simp add: w len)
  have s: "serialize [0xFF, 0xFF] = flag_bits @ stuff 0 (frame_bits [0xFF, 0xFF]) @ flag_bits"
    using t by blast
  have l: "length (serialize [0xFF, 0xFF]) = 35"
    by (simp add: s len fl)
  from five z six l show ?thesis by blast
qed

subsection \<open>Frame check sequence\<close>












end
